theory Spec2Isabelle
  imports Main
begin

section \<open>SelectiveFactory: the data model\<close>

text \<open>
  \<^verbatim>\<open>typedef bool(*Predicate)(Criterion);\<close> and
  \<^verbatim>\<open>typedef std::unique_ptr<Base>(*Factory)(Input...);\<close> are function pointers.
  A function pointer is modelled by the address it holds: two pointers are the same
  registration key exactly when the addresses are equal, and \<^verbatim>\<open>std::less\<close> (the
  comparison of \<^verbatim>\<open>std::map<Predicate,Factory>\<close>) is the order of the addresses.
\<close>

type_synonym Predicate = nat
type_synonym Factory = nat

text \<open>
  What the functions behind the pointers compute: \<open>predicate_at c p\<close> is the function at
  address \<open>p\<close> of type \<^verbatim>\<open>bool(Criterion)\<close>, \<open>factory_at c f\<close> the function at address
  \<open>f\<close> of type \<^verbatim>\<open>std::unique_ptr<Base>(Input...)\<close>. A \<^verbatim>\<open>std::unique_ptr<Base>\<close> is
  \<open>None\<close> when it is null and \<open>Some b\<close> when it owns the object \<open>b\<close>.
\<close>

record ('c, 'i, 'b) code =
  predicate_at :: "Predicate \<Rightarrow> 'c \<Rightarrow> bool"
  factory_at :: "Factory \<Rightarrow> 'i \<Rightarrow> 'b option"

text \<open>
  \<^verbatim>\<open>typedef typename std::map<Predicate,Factory> FunctionContainer;\<close>
  The container is the list of its elements in iteration order, which for a
  \<^verbatim>\<open>std::map\<close> is the ascending order of the keys, every key once.
\<close>

type_synonym FunctionContainer = "(Predicate \<times> Factory) list"

text \<open>
  \<^verbatim>\<open>std::map::insert(value)\<close>: the element is inserted at its place in the key order
  unless the container already holds an element with an equivalent key (neither key less
  than the other); then the container is left as it is.
\<close>

fun map_insert :: "Predicate \<times> Factory \<Rightarrow> FunctionContainer \<Rightarrow> FunctionContainer" where
  "map_insert kv [] = [kv]"
| "map_insert kv (e # es) =
     (if fst kv < fst e then kv # e # es
      else if fst e < fst kv then e # map_insert kv es
      else e # es)"

text \<open>
  \<^verbatim>\<open>static FunctionContainer *registeredFuns;\<close> is the only variable of the class;
  \<open>None\<close> is the null pointer. Whatever else the program holds is the record's extension.
\<close>

record state =
  registeredFuns :: "FunctionContainer option"

text \<open>
  The class has a second static member, \<^verbatim>\<open>static Deleter deleter;\<close>, whose destructor
  deletes the container. No function of the class names it, and a destructor of a static
  object runs when the program ends, after the calls modelled here; it is left out.
\<close>

text \<open>
  The member initialisation \<^verbatim>\<open>...::registeredFuns=nullptr;\<close>: a constant initialiser,
  so the pointer is null before any dynamic initialiser of any translation unit runs.
\<close>

definition init_state :: state where
  "init_state = \<lparr>registeredFuns = None\<rparr>"

text \<open>Dereferencing a null \<^verbatim>\<open>registeredFuns\<close> is the one way the class could go wrong.\<close>

datatype error = NullDereference

text \<open>
  What an execution does, in order: \<open>New\<close> is \<^verbatim>\<open>new FunctionContainer\<close>, \<open>Deref\<close> an
  access through \<^verbatim>\<open>registeredFuns\<close>, \<open>CallFirst f\<close> the call \<^verbatim>\<open>(f.first)(criterion)\<close>
  and \<open>CallSecond f\<close> the call \<^verbatim>\<open>(f.second)(value...)\<close> for the element \<open>f\<close> of the
  container.
\<close>

datatype event =
  New
| Deref
| CallFirst "Predicate \<times> Factory"
| CallSecond "Predicate \<times> Factory"

section \<open>The operations\<close>

text \<open>\<^verbatim>\<open>static void create(){ if(!registeredFuns) registeredFuns=new FunctionContainer; }\<close>\<close>

definition create :: "'a state_scheme \<Rightarrow> event list \<times> 'a state_scheme" where
  "create s =
     (if registeredFuns s = None then ([New], s\<lparr>registeredFuns := Some []\<rparr>)
      else ([], s))"

definition deref :: "'a state_scheme \<Rightarrow> error + FunctionContainer" where
  "deref s = (case registeredFuns s of None \<Rightarrow> Inl NullDereference | Some m \<Rightarrow> Inr m)"

text \<open>
  \<^verbatim>\<open>static void registerPtr(Predicate predicate, Factory factory){
      create();
      registeredFuns->insert(std::make_pair(predicate,factory));
  }\<close>
  The result is the return value (\<open>()\<close> for void), the events and the new state.
\<close>

definition registerPtr ::
  "Predicate \<Rightarrow> Factory \<Rightarrow> 'a state_scheme \<Rightarrow>
     (error + unit) \<times> event list \<times> 'a state_scheme" where
  "registerPtr predicate factory s0 =
     (let (t1, s1) = create s0 in
      case deref s1 of
        Inl err \<Rightarrow> (Inl err, t1 @ [Deref], s1)
      | Inr m \<Rightarrow>
          (Inr (), t1 @ [Deref],
           s1\<lparr>registeredFuns := Some (map_insert (predicate, factory) m)\<rparr>))"

text \<open>
  The loop of \<^verbatim>\<open>Produce\<close> over the elements still to visit, with the vector
  \<^verbatim>\<open>result\<close> and the events so far:
  \<^verbatim>\<open>for(auto& f: *registeredFuns){
      if((f.first)(criterion)){ result.emplace_back((f.second)(value...)); }
  }\<close>
\<close>

fun Produce_loop ::
  "('c, 'i, 'b) code \<Rightarrow> 'c \<Rightarrow> 'i \<Rightarrow> FunctionContainer \<Rightarrow>
     'b option list \<Rightarrow> event list \<Rightarrow> 'b option list \<times> event list" where
  "Produce_loop env criterion v [] result log = (result, log)"
| "Produce_loop env criterion v (f # fs) result log =
     (if predicate_at env (fst f) criterion
      then Produce_loop env criterion v fs
             (result @ [factory_at env (snd f) v])
             (log @ [CallFirst f, CallSecond f])
      else Produce_loop env criterion v fs result (log @ [CallFirst f]))"

text \<open>
  \<^verbatim>\<open>static std::vector<std::unique_ptr<Base>> Produce(Criterion criterion, Input... value){
      create();
      std::vector<std::unique_ptr<Base>> result;
      for(...){...}
      return std::move(result);
  }\<close>
\<close>

definition Produce ::
  "('c, 'i, 'b) code \<Rightarrow> 'c \<Rightarrow> 'i \<Rightarrow> 'a state_scheme \<Rightarrow>
     (error + 'b option list) \<times> event list \<times> 'a state_scheme" where
  "Produce env criterion v s0 =
     (let (t1, s1) = create s0 in
      case deref s1 of
        Inl err \<Rightarrow> (Inl err, t1 @ [Deref], s1)
      | Inr m \<Rightarrow>
          (let (result, t2) = Produce_loop env criterion v m [] (t1 @ [Deref])
           in (Inr result, t2, s1)))"

text \<open>
  The loop of \<^verbatim>\<open>ProduceOne\<close>, which returns from inside the loop at the first element
  whose predicate holds, and the null pointer after the loop:
  \<^verbatim>\<open>for(auto& f: *registeredFuns){
      if((f.first)(criterion)){ return std::unique_ptr<Base>((f.second)(value...)); }
  }
  return std::unique_ptr<Base>(nullptr);\<close>
\<close>

fun ProduceOne_loop ::
  "('c, 'i, 'b) code \<Rightarrow> 'c \<Rightarrow> 'i \<Rightarrow> FunctionContainer \<Rightarrow>
     event list \<Rightarrow> 'b option \<times> event list" where
  "ProduceOne_loop env criterion v [] log = (None, log)"
| "ProduceOne_loop env criterion v (f # fs) log =
     (if predicate_at env (fst f) criterion
      then (factory_at env (snd f) v, log @ [CallFirst f, CallSecond f])
      else ProduceOne_loop env criterion v fs (log @ [CallFirst f]))"

definition ProduceOne ::
  "('c, 'i, 'b) code \<Rightarrow> 'c \<Rightarrow> 'i \<Rightarrow> 'a state_scheme \<Rightarrow>
     (error + 'b option) \<times> event list \<times> 'a state_scheme" where
  "ProduceOne env criterion v s0 =
     (let (t1, s1) = create s0 in
      case deref s1 of
        Inl err \<Rightarrow> (Inl err, t1 @ [Deref], s1)
      | Inr m \<Rightarrow>
          (let (result, t2) = ProduceOne_loop env criterion v m (t1 @ [Deref])
           in (Inr result, t2, s1)))"

section \<open>Sequences of calls\<close>

text \<open>The entries a state holds: none while the container does not exist.\<close>

definition entries :: "'a state_scheme \<Rightarrow> FunctionContainer" where
  "entries s = (case registeredFuns s of None \<Rightarrow> [] | Some m \<Rightarrow> m)"

text \<open>The state after a sequence of \<^verbatim>\<open>registerPtr\<close> calls, in the order of the list.\<close>

fun registerAll :: "(Predicate \<times> Factory) list \<Rightarrow> 'a state_scheme \<Rightarrow> 'a state_scheme" where
  "registerAll [] s = s"
| "registerAll (r # rs) s =
     registerAll rs
       (snd (snd (registerPtr (fst r) (snd r) s)))"

text \<open>
  A call of one of the three public functions, what it returns, and the execution of a
  list of calls one after the other; a failing call ends the execution.
\<close>

datatype ('c, 'i) call =
  RegisterPtr Predicate Factory
| ProduceCall 'c 'i
| ProduceOneCall 'c 'i

datatype 'b outcome =
  Void
| Objects "'b option list"
| Object "'b option"

fun perform ::
  "('c, 'i, 'b) code \<Rightarrow> ('c, 'i) call \<Rightarrow> 'a state_scheme \<Rightarrow>
     (error + 'b outcome) \<times> event list \<times> 'a state_scheme" where
  "perform env (RegisterPtr p f) s =
     (case registerPtr p f s of (r, t, s') \<Rightarrow> (map_sum id (\<lambda>_. Void) r, t, s'))"
| "perform env (ProduceCall c v) s =
     (case Produce env c v s of (r, t, s') \<Rightarrow> (map_sum id Objects r, t, s'))"
| "perform env (ProduceOneCall c v) s =
     (case ProduceOne env c v s of (r, t, s') \<Rightarrow> (map_sum id Object r, t, s'))"

fun run ::
  "('c, 'i, 'b) code \<Rightarrow> ('c, 'i) call list \<Rightarrow> 'a state_scheme \<Rightarrow>
     (error + 'b outcome list) \<times> event list \<times> 'a state_scheme" where
  "run env [] s = (Inr [], [], s)"
| "run env (k # ks) s =
     (case perform env k s of
        (Inl err, t, s') \<Rightarrow> (Inl err, t, s')
      | (Inr out, t, s') \<Rightarrow>
          (case run env ks s' of
             (Inl err, t', s'') \<Rightarrow> (Inl err, t @ t', s'')
           | (Inr outs, t', s'') \<Rightarrow> (Inr (out # outs), t @ t', s'')))"

text \<open>
  The invariant of \<^verbatim>\<open>std::map\<close>: the keys of the elements strictly ascend in iteration
  order.
\<close>

definition map_ok :: "FunctionContainer \<Rightarrow> bool" where
  "map_ok m = sorted_wrt (<) (map fst m)"

text \<open>
  Reading the events: the elements whose predicate was called, and the elements whose
  factory was called, each in the order of the calls.
\<close>

fun first_calls :: "event list \<Rightarrow> (Predicate \<times> Factory) list" where
  "first_calls [] = []"
| "first_calls (CallFirst f # t) = f # first_calls t"
| "first_calls (e # t) = first_calls t"

fun second_calls :: "event list \<Rightarrow> (Predicate \<times> Factory) list" where
  "second_calls [] = []"
| "second_calls (CallSecond f # t) = f # second_calls t"
| "second_calls (e # t) = second_calls t"

section \<open>The selection rule of the specification\<close>

text \<open>
  The specification's rule for \<open>ProduceFirst\<close> and \<open>ProduceAll\<close>, written from its words
  over the list of registrations in the order they were made: a registration counts when
  no earlier one has the same predicate; the matches are the registrations that count and
  whose predicate holds, in registration order.
\<close>

fun spec_entries :: "(Predicate \<times> Factory) list \<Rightarrow> (Predicate \<times> Factory) list" where
  "spec_entries [] = []"
| "spec_entries (r # rs) = r # filter (\<lambda>e. fst e \<noteq> fst r) (spec_entries rs)"

definition spec_ProduceAll ::
  "('c, 'i, 'b) code \<Rightarrow> 'c \<Rightarrow> 'i \<Rightarrow> (Predicate \<times> Factory) list \<Rightarrow> 'b option list" where
  "spec_ProduceAll env c v regs =
     map (\<lambda>e. factory_at env (snd e) v)
       (filter (\<lambda>e. predicate_at env (fst e) c) (spec_entries regs))"

definition spec_ProduceFirst ::
  "('c, 'i, 'b) code \<Rightarrow> 'c \<Rightarrow> 'i \<Rightarrow> (Predicate \<times> Factory) list \<Rightarrow> 'b option" where
  "spec_ProduceFirst env c v regs =
     (case filter (\<lambda>e. predicate_at env (fst e) c) (spec_entries regs) of
        [] \<Rightarrow> None
      | e # es \<Rightarrow> factory_at env (snd e) v)"

section \<open>A program with three registered classes\<close>

text \<open>
  Predicates at the addresses 1, 2 and 3 and factories at 10, 20, 30 and 40. The
  predicate at 2 never holds, the two others always do; the factory at address \<open>f\<close>
  returns an object that carries \<open>f\<close>, but the factory at 40 returns the null pointer.
\<close>

definition demo :: "(unit, unit, nat) code" where
  "demo = \<lparr>predicate_at = (\<lambda>p c. p \<noteq> 2),
           factory_at = (\<lambda>f v. if f = 40 then None else Some f)\<rparr>"

section \<open>What each operation computes\<close>

lemma create_eq:
  "create s = ((if registeredFuns s = None then [New] else []), s\<lparr>registeredFuns := Some (entries s)\<rparr>)"
  by (cases "registeredFuns s") (simp_all add: create_def entries_def)

lemma registerPtr_eq:
  "registerPtr p f s =
     (Inr (), (if registeredFuns s = None then [New] else []) @ [Deref],
      s\<lparr>registeredFuns := Some (map_insert (p, f) (entries s))\<rparr>)"
  by (simp add: registerPtr_def create_eq deref_def)

lemma Produce_loop_eq:
  "Produce_loop env c v fs acc log =
     (acc @ map (\<lambda>e. factory_at env (snd e) v) (filter (\<lambda>e. predicate_at env (fst e) c) fs),
      log @ concat (map (\<lambda>f. if predicate_at env (fst f) c then [CallFirst f, CallSecond f] else [CallFirst f]) fs))"
  by (induction fs arbitrary: acc log) simp_all

lemma Produce_eq:
  "Produce env c v s =
     (Inr (map (\<lambda>e. factory_at env (snd e) v) (filter (\<lambda>e. predicate_at env (fst e) c) (entries s))),
      (if registeredFuns s = None then [New] else []) @ Deref #
        concat (map (\<lambda>f. if predicate_at env (fst f) c then [CallFirst f, CallSecond f] else [CallFirst f]) (entries s)),
      s\<lparr>registeredFuns := Some (entries s)\<rparr>)"
  by (simp add: Produce_def create_eq deref_def Produce_loop_eq)

lemma ProduceOne_loop_eq:
  "ProduceOne_loop env c v fs log =
     ((case filter (\<lambda>e. predicate_at env (fst e) c) fs of [] \<Rightarrow> None | e # es \<Rightarrow> factory_at env (snd e) v),
      log @ concat (map (\<lambda>f. if predicate_at env (fst f) c then [CallFirst f, CallSecond f] else [CallFirst f])
              (takeWhile (\<lambda>e. \<not> predicate_at env (fst e) c) fs @
               take 1 (dropWhile (\<lambda>e. \<not> predicate_at env (fst e) c) fs))))"
  by (induction fs arbitrary: log) simp_all

lemma ProduceOne_eq:
  "ProduceOne env c v s =
     (Inr (case filter (\<lambda>e. predicate_at env (fst e) c) (entries s) of [] \<Rightarrow> None | e # es \<Rightarrow> factory_at env (snd e) v),
      (if registeredFuns s = None then [New] else []) @ Deref #
        concat (map (\<lambda>f. if predicate_at env (fst f) c then [CallFirst f, CallSecond f] else [CallFirst f])
              (takeWhile (\<lambda>e. \<not> predicate_at env (fst e) c) (entries s) @
               take 1 (dropWhile (\<lambda>e. \<not> predicate_at env (fst e) c) (entries s)))),
      s\<lparr>registeredFuns := Some (entries s)\<rparr>)"
  by (simp add: ProduceOne_def create_eq deref_def ProduceOne_loop_eq)

lemma entries_update [simp]: "entries (s\<lparr>registeredFuns := Some m\<rparr>) = m"
  by (simp add: entries_def)

lemma map_ok_insert: "map_ok m \<Longrightarrow> map_ok (map_insert kv m)"
  unfolding map_ok_def
proof (induction m)
  case Nil
  then show ?case by simp
next
  case (Cons e es)
  have "set (map_insert kv es) \<subseteq> insert kv (set es)" for es
    by (induction es) auto
  with Cons show ?case by (auto simp: image_iff)
qed

lemma map_ok_Cons: "map_ok (e # es) \<longleftrightarrow> (\<forall>x \<in> set es. fst e < fst x) \<and> map_ok es"
  by (auto simp: map_ok_def)

lemma map_insert_present: "map_ok m \<Longrightarrow> fst kv \<in> fst ` set m \<Longrightarrow> map_insert kv m = m"
  by (induction m) (fastforce simp: map_ok_Cons)+

lemma map_of_map_insert: "map_ok m \<Longrightarrow> map_of (map_insert kv m) = map_of (m @ [kv])"
proof (induction m)
  case Nil
  then show ?case by simp
next
  case (Cons e es)
  have "map_of es (fst kv) = None" if "fst kv < fst e"
    using that Cons.prems by (force simp: map_ok_Cons map_of_eq_None_iff)
  with Cons show ?case
    by (cases kv; cases e) (auto simp: map_ok_Cons fun_eq_iff map_add_def split: option.splits)
qed

lemma perform_shape:
  "\<exists>out t s'. perform env k s = (Inr out, (if registeredFuns s = None then [New] else []) @ Deref # t, s')
     \<and> New \<notin> set t \<and> registeredFuns s' \<noteq> None \<and> entries s' = (case k of RegisterPtr p f \<Rightarrow> map_insert (p, f) (entries s) | _ \<Rightarrow> entries s)"
  by (cases k) (auto simp: registerPtr_eq Produce_eq ProduceOne_eq split: if_splits)

lemma run_shape:
  "\<exists>outs t s'. run env ks s = (Inr outs, (if registeredFuns s = None \<and> ks \<noteq> [] then [New] else []) @ t, s')
     \<and> New \<notin> set t \<and> length outs = length ks \<and> (ks \<noteq> [] \<longrightarrow> Deref \<in> set t \<and> registeredFuns s' \<noteq> None)"
proof (induction ks arbitrary: s)
  case Nil
  show ?case by simp
next
  case (Cons k ks)
  obtain out t s1 where p: "perform env k s = (Inr out, (if registeredFuns s = None then [New] else []) @ Deref # t, s1)"
    and t: "New \<notin> set t" and s1: "registeredFuns s1 \<noteq> None"
    using perform_shape [of env k s] by blast
  obtain outs t' s2 where r: "run env ks s1 = (Inr outs, (if registeredFuns s1 = None \<and> ks \<noteq> [] then [New] else []) @ t', s2)"
    and t': "New \<notin> set t'" and len: "length outs = length ks"
    and s2: "ks \<noteq> [] \<longrightarrow> registeredFuns s2 \<noteq> None"
    using Cons.IH [of s1] by blast
  have s2': "registeredFuns s2 \<noteq> None"
  proof (cases ks)
    case Nil
    with r s1 show ?thesis by simp
  next
    case (Cons a list)
    with s2 show ?thesis by simp
  qed
  have "run env (k # ks) s =
          (Inr (out # outs), (if registeredFuns s = None \<and> k # ks \<noteq> [] then [New] else []) @ (Deref # t @ t'), s2)"
    using p r s1 by simp
  with t t' len s2' show ?case by auto
qed

section \<open>Events of the queries, and the registry after registrations\<close>

lemma first_calls_append: "first_calls (a @ b) = first_calls a @ first_calls b"
  by (induction a rule: first_calls.induct) simp_all

lemma second_calls_append: "second_calls (a @ b) = second_calls a @ second_calls b"
  by (induction a rule: second_calls.induct) simp_all

lemma first_calls_loop:
  "first_calls (concat (map (\<lambda>f. if predicate_at env (fst f) c then [CallFirst f, CallSecond f] else [CallFirst f]) fs)) = fs"
  by (induction fs) simp_all

lemma second_calls_loop:
  "second_calls (concat (map (\<lambda>f. if predicate_at env (fst f) c then [CallFirst f, CallSecond f] else [CallFirst f]) fs))
     = filter (\<lambda>e. predicate_at env (fst e) c) fs"
  by (induction fs) simp_all

lemma Produce_first_calls: "first_calls (fst (snd (Produce env c v s))) = entries s"
  by (simp add: Produce_eq first_calls_append first_calls_loop)

lemma Produce_second_calls:
  "second_calls (fst (snd (Produce env c v s))) = filter (\<lambda>e. predicate_at env (fst e) c) (entries s)"
  by (simp add: Produce_eq second_calls_append second_calls_loop)

lemma ProduceOne_first_calls:
  "first_calls (fst (snd (ProduceOne env c v s))) =
     takeWhile (\<lambda>e. \<not> predicate_at env (fst e) c) (entries s) @
     take 1 (dropWhile (\<lambda>e. \<not> predicate_at env (fst e) c) (entries s))"
  by (simp add: ProduceOne_eq first_calls_append first_calls_loop del: map_append)

lemma ProduceOne_second_calls:
  "second_calls (fst (snd (ProduceOne env c v s))) =
     filter (\<lambda>e. predicate_at env (fst e) c)
       (takeWhile (\<lambda>e. \<not> predicate_at env (fst e) c) (entries s) @
        take 1 (dropWhile (\<lambda>e. \<not> predicate_at env (fst e) c) (entries s)))"
  by (simp add: ProduceOne_eq second_calls_append second_calls_loop del: map_append filter_append)

lemma map_ok_distinct: "map_ok m \<Longrightarrow> distinct (map fst m)"
  by (simp add: map_ok_def strict_sorted_iff)

lemma scan_prefix:
  "xs = (takeWhile P xs @ take 1 (dropWhile P xs)) @ drop 1 (dropWhile P xs)"
  by simp

lemma registerAll_ok:
  "map_ok (entries s) \<Longrightarrow> map_ok (entries (registerAll regs s))"
  by (induction regs arbitrary: s) (simp_all add: registerPtr_eq map_ok_insert)

lemma registerAll_map_of:
  "map_ok (entries s) \<Longrightarrow> map_of (entries (registerAll regs s)) = map_of (entries s @ regs)"
proof (induction regs arbitrary: s)
  case Nil
  show ?case by simp
next
  case (Cons r rs)
  let ?s = "s\<lparr>registeredFuns := Some (map_insert r (entries s))\<rparr>"
  have "map_of (entries (registerAll rs ?s)) = map_of (entries ?s @ rs)"
    using Cons.prems by (intro Cons.IH) (simp add: map_ok_insert)
  also have "\<dots> = map_of rs ++ map_of (map_insert r (entries s))"
    by simp
  also have "\<dots> = map_of rs ++ map_of (entries s @ [r])"
    using Cons.prems by (simp only: map_of_map_insert)
  also have "\<dots> = map_of (entries s @ r # rs)"
    by simp
  finally show ?case by (simp add: registerPtr_eq)
qed

lemma registerAll_storage:
  "regs \<noteq> [] \<or> registeredFuns s \<noteq> None \<Longrightarrow>
     registeredFuns (registerAll regs s) = Some (entries (registerAll regs s))"
proof (induction regs arbitrary: s)
  case Nil
  then show ?case by (auto simp: entries_def)
next
  case (Cons r rs)
  show ?case by (simp add: registerPtr_eq Cons.IH)
qed

lemma entries_init: "entries init_state = []"
  by (simp add: entries_def init_state_def)

lemma registered_ok: "map_ok (entries (registerAll regs init_state))"
  by (rule registerAll_ok) (simp add: entries_init map_ok_def)

lemma registered_map_of: "map_of (entries (registerAll regs init_state)) = map_of regs"
  using registerAll_map_of [of init_state regs] by (simp add: entries_init map_ok_def)

lemma registered_keys: "fst ` set (entries (registerAll regs init_state)) = fst ` set regs"
  using registered_map_of [of regs] by (metis dom_map_of_conv_image_fst)

lemma filter_key:
  "map_ok m \<Longrightarrow> map_of m p = Some f \<Longrightarrow> filter (\<lambda>e. fst e = p) m = [(p, f)]"
proof (induction m)
  case Nil
  then show ?case by simp
next
  case (Cons e es)
  show ?case
  proof (cases "fst e = p")
    case True
    with Cons.prems have "\<forall>x \<in> set es. fst x \<noteq> p" by (auto simp: map_ok_Cons)
    then have "filter (\<lambda>e. fst e = p) es = []" by (simp add: filter_empty_conv)
    with True Cons.prems show ?thesis by (cases e) simp
  next
    case False
    with Cons show ?thesis by (cases e) (simp add: map_ok_Cons)
  qed
qed

lemma filter_least:
  "map_ok m \<Longrightarrow> (p, f) \<in> set m \<Longrightarrow> P p \<Longrightarrow> (\<forall>e \<in> set m. P (fst e) \<longrightarrow> p \<le> fst e) \<Longrightarrow>
     \<exists>es. filter (\<lambda>e. P (fst e)) m = (p, f) # es"
proof (induction m)
  case Nil
  then show ?case by simp
next
  case (Cons e es)
  show ?case
  proof (cases "e = (p, f)")
    case True
    with Cons.prems show ?thesis by simp
  next
    case False
    with Cons.prems have in_es: "(p, f) \<in> set es" by simp
    with Cons.prems have "fst e < p" by (auto simp: map_ok_Cons)
    with Cons.prems have "\<not> P (fst e)" by auto
    moreover have "\<exists>es'. filter (\<lambda>e. P (fst e)) es = (p, f) # es'"
      using Cons.prems in_es by (intro Cons.IH) (auto simp: map_ok_Cons)
    ultimately show ?thesis by simp
  qed
qed

lemma entries_by_keys:
  "map_ok m \<Longrightarrow> m = map (\<lambda>p. (p, the (map_of m p))) (map fst m)"
proof (induction m)
  case Nil
  show ?case by simp
next
  case (Cons e es)
  then have es: "es = map (\<lambda>p. (p, the (map_of es p))) (map fst es)"
    by (simp add: map_ok_Cons)
  have "map (\<lambda>p. (p, the (map_of (e # es) p))) (map fst es) = map (\<lambda>p. (p, the (map_of es p))) (map fst es)"
    using Cons.prems by (intro map_cong) (auto simp: map_ok_Cons)
  with es show ?case by (cases e) simp
qed

lemma keys_sorted: "map_ok m \<Longrightarrow> map fst m = sorted_list_of_set (fst ` set m)"
  by (metis map_ok_def strict_sorted_iff sorted_list_of_set.idem_if_sorted_distinct list.set_map)

lemma registered_entries:
  "entries (registerAll regs init_state) =
     map (\<lambda>p. (p, the (map_of regs p))) (sorted_list_of_set (fst ` set regs))"
  using entries_by_keys [OF registered_ok, of regs] keys_sorted [OF registered_ok, of regs]
  by (simp only: registered_map_of registered_keys)

section \<open>The claims\<close>

text \<open>
  C1 (as amended). In the registry built from the initial state by any sequence of
  \<open>registerPtr\<close> calls, when \<open>p\<close> is the least address among the registered predicates
  that hold for the criterion, \<open>ProduceOne\<close> returns what the factory bound to \<open>p\<close>
  returns, and that factory is the one of the first registration of \<open>p\<close>
  (\<open>map_of\<close> finds the first pair with the key). The selection follows the order of
  the keys of \<^verbatim>\<open>std::map\<close>, not the order of registration.
\<close>

theorem ProduceOne_least_address:
  assumes "p \<in> fst ` set regs" and "predicate_at env p c"
    and "\<forall>q \<in> fst ` set regs. predicate_at env q c \<longrightarrow> p \<le> q"
  shows "fst (ProduceOne env c v (registerAll regs init_state)) =
           Inr (factory_at env (the (map_of regs p)) v)"
proof -
  let ?m = "entries (registerAll regs init_state)"
  from assms(1) obtain f where f: "map_of regs p = Some f"
    by (metis domD dom_map_of_conv_image_fst)
  then have "(p, f) \<in> set ?m"
    by (metis registered_map_of map_of_SomeD)
  moreover have "\<forall>e \<in> set ?m. predicate_at env (fst e) c \<longrightarrow> p \<le> fst e"
    using assms(3) registered_keys [of regs] by (metis imageI)
  ultimately obtain es where "filter (\<lambda>e. predicate_at env (fst e) c) ?m = (p, f) # es"
    using filter_least [OF registered_ok, of p f regs "\<lambda>q. predicate_at env q c"] assms(2) by blast
  with f show ?thesis by (simp add: ProduceOne_eq)
qed

theorem ProduceOne_least_address_witness:
  "fst (ProduceOne demo () () (registerAll [(3, 30), (2, 20), (1, 10)] init_state)) = Inr (Some 10)"
proof -
  have 1: "(1::nat) \<in> fst ` set [(3::nat, 30::nat), (2, 20), (1, 10)]" by simp
  have 2: "predicate_at demo 1 ()" by (simp add: demo_def)
  have 3: "\<forall>q \<in> fst ` set [(3::nat, 30::nat), (2, 20), (1, 10)]. predicate_at demo q () \<longrightarrow> 1 \<le> q"
    by simp
  from ProduceOne_least_address [OF 1 2 3, of "()"] show ?thesis by (simp add: demo_def)
qed

text \<open>
  The claim C1 as it is written fails: registering the predicates 3, 2 and 1 in this
  order, of which 3 and 1 hold, the earliest registered match is 3 with the factory 30,
  but \<open>ProduceOne\<close> returns the object of the factory 10, bound to the predicate 1.
\<close>

theorem ProduceOne_registration_order_counterexample:
  "spec_ProduceFirst demo () () [(3, 30), (2, 20), (1, 10)] = Some 30 \<and>
   fst (ProduceOne demo () () (registerAll [(3, 30), (2, 20), (1, 10)] init_state)) =
     Inr (Some 10) \<and>
   fst (ProduceOne demo () () (registerAll [(3, 30), (2, 20), (1, 10)] init_state)) \<noteq>
     Inr (spec_ProduceFirst demo () () [(3, 30), (2, 20), (1, 10)])"
  by (simp add: spec_ProduceFirst_def ProduceOne_eq registerPtr_eq init_state_def entries_def demo_def)

text \<open>
  C2 (as amended). In the registry built from the initial state by any sequence of
  \<open>registerPtr\<close> calls, \<open>Produce\<close> returns one object for every registered predicate that
  holds for the criterion and nothing for the others; the object comes from the factory
  of the predicate's first registration, and the objects stand in the ascending order of
  the predicates' addresses.
\<close>

theorem Produce_address_order:
  "fst (Produce env c v (registerAll regs init_state)) =
     Inr (map (\<lambda>p. factory_at env (the (map_of regs p)) v)
            (filter (\<lambda>p. predicate_at env p c) (sorted_list_of_set (fst ` set regs))))"
  by (simp add: Produce_eq registered_entries filter_map o_def)

theorem Produce_address_order_witness:
  "fst (Produce demo () () (registerAll [(3, 30), (2, 20), (1, 10)] init_state)) =
     Inr [Some 10, Some 30]"
proof -
  have k: "sorted_list_of_set (fst ` set [(3::nat, 30::nat), (2, 20), (1, 10)]) = [1, 2, 3]"
    by (simp add: sorted_list_of_set_sort_remdups flip: list.set_map)
  show ?thesis
    unfolding Produce_address_order k by (simp add: demo_def)
qed

text \<open>
  The claim C2 as it is written fails on the specification's own scenario: P1, P2 and P3
  registered in this order at the addresses 3, 2 and 1, where P1 and P3 hold. The
  specification asks for the objects of P1 then P3; \<open>Produce\<close> returns P3's then P1's.
\<close>

theorem Produce_registration_order_counterexample:
  "spec_ProduceAll demo () () [(3, 30), (2, 20), (1, 10)] = [Some 30, Some 10] \<and>
   fst (Produce demo () () (registerAll [(3, 30), (2, 20), (1, 10)] init_state)) =
     Inr [Some 10, Some 30] \<and>
   fst (Produce demo () () (registerAll [(3, 30), (2, 20), (1, 10)] init_state)) \<noteq>
     Inr (spec_ProduceAll demo () () [(3, 30), (2, 20), (1, 10)])"
  by (simp add: spec_ProduceAll_def Produce_eq registerPtr_eq init_state_def entries_def demo_def)

text \<open>
  C3. When the predicate \<open>p\<close> has been registered before, first with the factory \<open>f\<close>,
  a further \<open>registerPtr p f'\<close> leaves the state as it was, whatever \<open>f'\<close> is: the
  registry holds exactly one entry with the key \<open>p\<close>, and it is \<open>(p, f)\<close>.
\<close>

theorem duplicate_registration_noop:
  assumes "map_of regs p = Some f"
  shows "snd (snd (registerPtr p f' (registerAll regs init_state))) = registerAll regs init_state \<and>
         filter (\<lambda>e. fst e = p)
           (entries (snd (snd (registerPtr p f' (registerAll regs init_state))))) = [(p, f)]"
proof -
  let ?s = "registerAll regs init_state"
  from assms have ne: "regs \<noteq> []" by auto
  from assms have "p \<in> fst ` set (entries ?s)"
    by (metis registered_keys domI dom_map_of_conv_image_fst)
  then have same: "map_insert (p, f') (entries ?s) = entries ?s"
    using registered_ok [of regs] by (simp add: map_insert_present)
  have "registeredFuns ?s = Some (entries ?s)"
    using ne by (simp add: registerAll_storage)
  then have 1: "snd (snd (registerPtr p f' ?s)) = ?s"
    by (simp add: registerPtr_eq same)
  have "filter (\<lambda>e. fst e = p) (entries ?s) = [(p, f)]"
    using registered_ok [of regs] assms by (simp add: filter_key registered_map_of)
  with 1 show ?thesis by simp
qed

theorem duplicate_registration_noop_witness:
  "snd (snd (registerPtr 1 20 (registerAll [(1, 10), (2, 20)] init_state))) =
     registerAll [(1, 10), (2, 20)] init_state \<and>
   filter (\<lambda>e. fst e = 1)
     (entries (snd (snd (registerPtr 1 20 (registerAll [(1, 10), (2, 20)] init_state))))) = [(1, 10)]"
proof -
  have h: "map_of [(1::nat, 10::nat), (2, 20)] 1 = Some 10" by simp
  from duplicate_registration_noop [OF h, of 20] show ?thesis .
qed

text \<open>
  C4. When no registered predicate holds for the criterion, \<open>Produce\<close> returns the empty
  vector and \<open>ProduceOne\<close> returns the null pointer, which is no pointer to an object;
  neither call fails.
\<close>

theorem no_match_results:
  assumes "\<forall>e \<in> set (entries s). \<not> predicate_at env (fst e) c"
  shows "fst (Produce env c v s) = Inr [] \<and>
         fst (ProduceOne env c v s) = Inr None \<and>
         (\<forall>b. fst (ProduceOne env c v s) \<noteq> Inr (Some b)) \<and>
         (\<forall>err. fst (Produce env c v s) \<noteq> Inl err) \<and>
         (\<forall>err. fst (ProduceOne env c v s) \<noteq> Inl err)"
proof -
  from assms have "filter (\<lambda>e. predicate_at env (fst e) c) (entries s) = []"
    by (simp add: filter_empty_conv)
  then show ?thesis
    by (simp add: Produce_eq ProduceOne_eq)
qed

theorem no_match_results_witness:
  "fst (Produce demo () () (registerAll [(2, 20)] init_state)) = Inr [] \<and>
   fst (ProduceOne demo () () (registerAll [(2, 20)] init_state)) = Inr None"
  using no_match_results [of "registerAll [(2, 20)] init_state" demo "()" "()"]
  by (simp add: registerPtr_eq init_state_def entries_def demo_def)

text \<open>
  C5. In a registry that satisfies the invariant of \<^verbatim>\<open>std::map\<close>, a query calls no
  predicate twice, and it calls the factory only of entries of the registry whose
  predicate holds for the criterion.
\<close>

theorem query_calls:
  assumes "map_ok (entries s)"
  shows "distinct (map fst (first_calls (fst (snd (Produce env c v s))))) \<and>
         distinct (map fst (first_calls (fst (snd (ProduceOne env c v s))))) \<and>
         (\<forall>f \<in> set (second_calls (fst (snd (Produce env c v s)))).
             f \<in> set (entries s) \<and> predicate_at env (fst f) c) \<and>
         (\<forall>f \<in> set (second_calls (fst (snd (ProduceOne env c v s)))).
             f \<in> set (entries s) \<and> predicate_at env (fst f) c)"
proof -
  have d: "distinct (map fst (entries s))"
    using assms by (rule map_ok_distinct)
  have 1: "distinct (map fst (first_calls (fst (snd (Produce env c v s)))))"
    using d by (simp add: Produce_first_calls)
  have e: "entries s = first_calls (fst (snd (ProduceOne env c v s))) @
          drop 1 (dropWhile (\<lambda>e. \<not> predicate_at env (fst e) c) (entries s))"
    unfolding ProduceOne_first_calls by (rule scan_prefix)
  have sub: "set (first_calls (fst (snd (ProduceOne env c v s)))) \<subseteq> set (entries s)"
    by (metis e Un_upper1 set_append)
  from d e have 2: "distinct (map fst (first_calls (fst (snd (ProduceOne env c v s)))))"
    by (metis distinct_append map_append)
  have 3: "\<forall>f \<in> set (second_calls (fst (snd (Produce env c v s)))).
             f \<in> set (entries s) \<and> predicate_at env (fst f) c"
    by (simp add: Produce_second_calls)
  have 4: "\<forall>f \<in> set (second_calls (fst (snd (ProduceOne env c v s)))).
             f \<in> set (entries s) \<and> predicate_at env (fst f) c"
    using sub by (auto simp: ProduceOne_second_calls ProduceOne_first_calls simp del: filter_append)
  from 1 2 3 4 show ?thesis by blast
qed

theorem query_calls_witness:
  "map_ok (entries (registerAll [(3, 30), (2, 20), (1, 10)] init_state)) \<and>
   distinct (map fst (first_calls (fst (snd (Produce demo () ()
      (registerAll [(3, 30), (2, 20), (1, 10)] init_state)))))) \<and>
   distinct (map fst (first_calls (fst (snd (ProduceOne demo () ()
      (registerAll [(3, 30), (2, 20), (1, 10)] init_state)))))) \<and>
   second_calls (fst (snd (Produce demo () ()
      (registerAll [(3, 30), (2, 20), (1, 10)] init_state)))) = [(1, 10), (3, 30)] \<and>
   second_calls (fst (snd (ProduceOne demo () ()
      (registerAll [(3, 30), (2, 20), (1, 10)] init_state)))) = [(1, 10)]"
proof -
  have e: "entries (registerAll [(3, 30), (2, 20), (1, 10)] init_state) = [(1, 10), (2, 20), (3, 30)]"
    by (simp add: registerPtr_eq init_state_def entries_def)
  have h: "map_ok (entries (registerAll [(3, 30), (2, 20), (1, 10)] init_state))"
    unfolding e by (simp add: map_ok_def)
  have 2: "second_calls (fst (snd (Produce demo () ()
      (registerAll [(3, 30), (2, 20), (1, 10)] init_state)))) = [(1, 10), (3, 30)]"
    unfolding Produce_second_calls e by (simp add: demo_def)
  have 3: "second_calls (fst (snd (ProduceOne demo () ()
      (registerAll [(3, 30), (2, 20), (1, 10)] init_state)))) = [(1, 10)]"
    unfolding ProduceOne_second_calls e by (simp add: demo_def)
  from query_calls [OF h, of demo "()" "()"] h 2 3 show ?thesis by blast
qed

text \<open>
  C6. Whatever the calls of a non-empty sequence are, and whichever comes first, the
  execution from the initial state begins with the construction of the container, before
  any access through \<open>registeredFuns\<close>; the container is never constructed again, and
  every call of the sequence returns.
\<close>

theorem storage_constructed_once_before_use:
  assumes "ks \<noteq> []"
  shows "\<exists>rest outs. fst (snd (run env ks init_state)) = New # rest \<and> New \<notin> set rest \<and>
           Deref \<in> set rest \<and>
           fst (run env ks init_state) = Inr outs \<and> length outs = length ks"
proof -
  obtain outs t s' where "run env ks init_state = (Inr outs, [New] @ t, s')"
    and "New \<notin> set t" and "length outs = length ks" and "Deref \<in> set t"
    using run_shape [of env ks init_state] assms by (auto simp: init_state_def)
  then show ?thesis by simp
qed

theorem storage_constructed_once_before_use_witness:
  "\<exists>rest outs. fst (snd (run demo [ProduceOneCall () (), RegisterPtr 1 10, ProduceCall () ()] init_state)) = New # rest \<and>
     New \<notin> set rest \<and> Deref \<in> set rest \<and>
     fst (run demo [ProduceOneCall () (), RegisterPtr 1 10, ProduceCall () ()] init_state) = Inr outs \<and>
     length outs = length [ProduceOneCall () (), RegisterPtr (1::nat) (10::nat), ProduceCall () ()]"
  using storage_constructed_once_before_use [of "[ProduceOneCall () (), RegisterPtr 1 10, ProduceCall () ()]" demo]
  by simp

text \<open>
  C7. \<open>registerPtr\<close> returns void; it changes no part of the state but
  \<open>registeredFuns\<close>, and it calls no predicate and no factory.
\<close>

theorem registerPtr_frame:
  "fst (registerPtr p f s) = Inr () \<and>
   (\<exists>m. snd (snd (registerPtr p f s)) = s\<lparr>registeredFuns := Some m\<rparr>) \<and>
   state.more (snd (snd (registerPtr p f s))) = state.more s \<and>
   set (fst (snd (registerPtr p f s))) \<subseteq> {New, Deref}"
  by (auto simp: registerPtr_eq)

text \<open>
  C8. A call in the initial state, where nothing has been registered and the container
  does not exist yet, constructs the container before it goes through the pointer:
  \<open>Produce\<close> returns the empty vector and \<open>ProduceOne\<close> the null pointer.
\<close>

theorem query_before_any_registration:
  "Produce env c v init_state = (Inr [], [New, Deref], \<lparr>registeredFuns = Some []\<rparr>) \<and>
   ProduceOne env c v init_state = (Inr None, [New, Deref], \<lparr>registeredFuns = Some []\<rparr>) \<and>
   registerPtr p f init_state = (Inr (), [New, Deref], \<lparr>registeredFuns = Some [(p, f)]\<rparr>)"
  by (simp add: Produce_eq ProduceOne_eq registerPtr_eq init_state_def entries_def)

text \<open>
  C9 (as amended). \<open>ProduceOne\<close> returns the null pointer when no predicate holds. It
  returns the null pointer as well when the first entry in iteration order whose
  predicate holds has a factory that returns null. When no factory of the registry
  returns null for the input, \<open>ProduceOne\<close> returns the null pointer exactly when no
  registered predicate holds.
\<close>

theorem ProduceOne_null_result:
  "((\<forall>e \<in> set (entries s). \<not> predicate_at env (fst e) c) \<longrightarrow>
      fst (ProduceOne env c v s) = Inr None) \<and>
   (\<forall>e es. filter (\<lambda>e. predicate_at env (fst e) c) (entries s) = e # es \<and>
        factory_at env (snd e) v = None \<longrightarrow>
      fst (ProduceOne env c v s) = Inr None) \<and>
   ((\<forall>e \<in> set (entries s). factory_at env (snd e) v \<noteq> None) \<longrightarrow>
      (fst (ProduceOne env c v s) = Inr None \<longleftrightarrow>
         (\<forall>e \<in> set (entries s). \<not> predicate_at env (fst e) c)))"
proof (intro conjI impI allI)
  assume "\<forall>e \<in> set (entries s). \<not> predicate_at env (fst e) c"
  then have "filter (\<lambda>e. predicate_at env (fst e) c) (entries s) = []"
    by (simp add: filter_empty_conv)
  then show "fst (ProduceOne env c v s) = Inr None"
    by (simp add: ProduceOne_eq)
next
  fix e es
  assume "filter (\<lambda>e. predicate_at env (fst e) c) (entries s) = e # es \<and>
            factory_at env (snd e) v = None"
  then show "fst (ProduceOne env c v s) = Inr None"
    by (simp add: ProduceOne_eq)
next
  assume nonnull: "\<forall>e \<in> set (entries s). factory_at env (snd e) v \<noteq> None"
  show "fst (ProduceOne env c v s) = Inr None \<longleftrightarrow>
          (\<forall>e \<in> set (entries s). \<not> predicate_at env (fst e) c)"
  proof (cases "filter (\<lambda>e. predicate_at env (fst e) c) (entries s)")
    case Nil
    then show ?thesis by (simp add: ProduceOne_eq filter_empty_conv)
  next
    case (Cons e es)
    then have "e \<in> set (filter (\<lambda>e. predicate_at env (fst e) c) (entries s))"
      by simp
    then have "e \<in> set (entries s) \<and> predicate_at env (fst e) c"
      by simp
    with nonnull Cons show ?thesis by (auto simp: ProduceOne_eq)
  qed
qed

theorem ProduceOne_null_result_witness:
  "fst (ProduceOne demo () () (registerAll [(2, 20)] init_state)) = Inr None \<and>
   fst (ProduceOne demo () () (registerAll [(1, 40), (3, 30)] init_state)) = Inr None \<and>
   fst (ProduceOne demo () () (registerAll [(1, 10), (2, 20)] init_state)) \<noteq> Inr None"
proof -
  have e1: "entries (registerAll [(2, 20)] init_state) = [(2, 20)]"
    by (simp add: registerPtr_eq init_state_def entries_def)
  have e2: "entries (registerAll [(1, 40), (3, 30)] init_state) = [(1, 40), (3, 30)]"
    by (simp add: registerPtr_eq init_state_def entries_def)
  have e3: "entries (registerAll [(1, 10), (2, 20)] init_state) = [(1, 10), (2, 20)]"
    by (simp add: registerPtr_eq init_state_def entries_def)
  have 1: "fst (ProduceOne demo () () (registerAll [(2, 20)] init_state)) = Inr None"
    using ProduceOne_null_result [of "registerAll [(2, 20)] init_state" demo "()" "()"]
    unfolding e1 by (simp add: demo_def)
  have 2: "fst (ProduceOne demo () () (registerAll [(1, 40), (3, 30)] init_state)) = Inr None"
    using ProduceOne_null_result [of "registerAll [(1, 40), (3, 30)] init_state" demo "()" "()"]
    unfolding e2 by (simp add: demo_def)
  have 3: "fst (ProduceOne demo () () (registerAll [(1, 10), (2, 20)] init_state)) \<noteq> Inr None"
    using ProduceOne_null_result [of "registerAll [(1, 10), (2, 20)] init_state" demo "()" "()"]
    unfolding e3 by (simp add: demo_def)
  from 1 2 3 show ?thesis by blast
qed

text \<open>
  The claim C9 as it is written fails: a matching entry whose factory returns null does
  not make the result null when an entry before it matches. Here the predicates 1 and 3
  both hold, the factory 40 of the predicate 3 returns null, and \<open>ProduceOne\<close> returns
  the object of the factory 10.
\<close>

theorem ProduceOne_null_producer_counterexample:
  "(3, 40) \<in> set (entries (registerAll [(1, 10), (3, 40)] init_state)) \<and>
   predicate_at demo 3 () \<and>
   factory_at demo 40 () = None \<and>
   fst (ProduceOne demo () () (registerAll [(1, 10), (3, 40)] init_state)) = Inr (Some 10) \<and>
   fst (ProduceOne demo () () (registerAll [(1, 10), (3, 40)] init_state)) \<noteq> Inr None"
  by (simp add: ProduceOne_eq registerPtr_eq init_state_def entries_def demo_def)

text \<open>
  C10. A query leaves the entries as they were, and a query made again after a query, of
  the same kind or of the other, returns what it returned before.
\<close>

theorem queries_repeatable:
  "fst (Produce env c v (snd (snd (Produce env c v s)))) = fst (Produce env c v s) \<and>
   fst (ProduceOne env c v (snd (snd (ProduceOne env c v s)))) = fst (ProduceOne env c v s) \<and>
   fst (Produce env c v (snd (snd (ProduceOne env c' v' s)))) = fst (Produce env c v s) \<and>
   fst (ProduceOne env c v (snd (snd (Produce env c' v' s)))) = fst (ProduceOne env c v s) \<and>
   entries (snd (snd (Produce env c v s))) = entries s \<and>
   entries (snd (snd (ProduceOne env c v s))) = entries s"
  by (simp add: Produce_eq ProduceOne_eq)

end
